theory Spec2Isabelle
  imports Complex_Main "HOL-Library.AList"
begin

section \<open>Data model\<close>

text \<open>
  The multi-domain workflow orchestrator of \<^verbatim>\<open>extensions/workflows/multi_domain_orchestrator.py\<close>
  and the agent model of \<^verbatim>\<open>extensions/agents/base.py\<close>.

  A Python \<^verbatim>\<open>dict\<close> keeps its keys in insertion order, so it is an association list with
  distinct keys: \<^verbatim>\<open>d[k] = v\<close> is \<open>AList.update k v d\<close>, \<^verbatim>\<open>k in d\<close> is
  \<open>map_of d k \<noteq> None\<close>, \<^verbatim>\<open>d.values()\<close> is \<open>map snd d\<close> and \<^verbatim>\<open>len(d)\<close> is
  \<open>length d\<close>.
\<close>

type_synonym ('k, 'v) dict = "('k \<times> 'v) list"

text \<open>
  Values by content: what the summary functions read out of a result payload. Floats are
  idealised as rationals; dictionaries are keyed by strings.
\<close>

datatype pyval =
    PNone
  | PBool bool
  | PInt int
  | PFloat rat
  | PStr string
  | PList "pyval list"
  | PDict "(string \<times> pyval) list"

text \<open>The exceptions that can reach the handler of \<^verbatim>\<open>execute_workflow\<close>.\<close>

datatype exn = TypeError | ValueError | OverflowError | AgentFault string

datatype WorkflowType =
    REAL_ESTATE_DEVELOPMENT
  | BUSINESS_EXPANSION
  | HEALTHCARE_FACILITY
  | MARKETING_CAMPAIGN
  | CONSTRUCTION_PROJECT

text \<open>
  Values by reference: what a variable, a dictionary entry or a list element holds. A
  scalar is held as it is; a dictionary or a list is held as the address of a mutable
  object in the store, so that two holders of the same address see each other's writes.
  Allocation appends to the store.
\<close>

type_synonym addr = nat

datatype val = VNone | VBool bool | VInt int | VFloat rat | VStr string | VRef addr

datatype obj = ODict "(string, val) dict" | OList "val list"

type_synonym store = "obj list"

definition alloc :: "store \<Rightarrow> obj \<Rightarrow> addr \<times> store" where
  "alloc h ob = (length h, h @ [ob])"

text \<open>
  The entries of a context. A context is a dictionary (\<^verbatim>\<open>Dict[str, Any]\<close>); an object of
  another kind at its address counts as one without entries.
\<close>

definition entries :: "obj \<Rightarrow> (string, val) dict" where
  "entries ob = (case ob of ODict d \<Rightarrow> d | OList xs \<Rightarrow> [])"

text \<open>
  The content of a value in a store, read to the given depth of references; \<open>view\<close> reads
  as deep as an acyclic store can go. A reference that is dangling or lies deeper reads
  as \<^verbatim>\<open>None\<close>.
\<close>

fun content :: "nat \<Rightarrow> store \<Rightarrow> val \<Rightarrow> pyval" where
  "content n h VNone = PNone"
| "content n h (VBool b) = PBool b"
| "content n h (VInt i) = PInt i"
| "content n h (VFloat q) = PFloat q"
| "content n h (VStr s) = PStr s"
| "content 0 h (VRef a) = PNone"
| "content (Suc n) h (VRef a) =
     (if a < length h then
        (case h ! a of
           ODict d \<Rightarrow> PDict (map (\<lambda>kv. (fst kv, content n h (snd kv))) d)
         | OList xs \<Rightarrow> PList (map (content n h) xs))
      else PNone)"

definition view :: "store \<Rightarrow> val \<Rightarrow> pyval" where
  "view h v = content (length h) h v"

text \<open>
  \<^verbatim>\<open>TaskResult\<close>, over the kind of value its payload is: a \<open>val\<close> while the workflow runs
  (the payload is shared by reference), a \<open>pyval\<close> where only its content is read.
\<close>

record 'd TaskResult =
  success :: bool
  data :: 'd
  confidence :: rat
  execution_time :: rat
  metadata :: "(string, pyval) dict"
  timestamp :: nat

record WorkflowStep =
  step_id :: string
  agent_name :: string
  task_description :: string
  dependencies :: "string list"
  expected_duration :: int
  priority :: int

text \<open>
  An agent's \<^verbatim>\<open>execute_task(task, context)\<close>: it is handed the address of its context
  dictionary, it returns a \<^verbatim>\<open>TaskResult\<close> or raises, and it may have written to any object
  and allocated new ones, so it also yields the store it leaves. The registry is the
  dictionary \<^verbatim>\<open>AgentRegistry._agents\<close>; \<^verbatim>\<open>get_agent\<close> is its \<^verbatim>\<open>get\<close>, absent names giving
  \<^verbatim>\<open>None\<close>.
\<close>

type_synonym agent = "string \<Rightarrow> addr \<Rightarrow> store \<Rightarrow> (exn + val TaskResult) \<times> store"
type_synonym registry = "string \<Rightarrow> agent option"

definition get_agent :: "registry \<Rightarrow> string \<Rightarrow> agent option" where
  "get_agent reg name = reg name"

text \<open>
  A coroutine object created by calling \<^verbatim>\<open>agent.execute_task(step.task_description,
  enhanced_context)\<close>: nothing of the agent runs until it is awaited. It remembers the
  step it was created for, the agent and the address of the enhanced context.
\<close>

datatype coroutine = Coroutine (co_step: WorkflowStep) (co_agent: agent) (co_addr: addr)

text \<open>
  One record per executor invocation, kept as a trace: the step, the address of the
  context dictionary handed to the executor, the store and \<^verbatim>\<open>step_results\<close> as they stood
  when the executor started.
\<close>

record invocation =
  call_step :: WorkflowStep
  call_addr :: addr
  call_store :: store
  call_results :: "(string, val TaskResult) dict"

text \<open>
  The state of \<^verbatim>\<open>_execute_workflow_steps\<close>: its two local variables, the store and the
  trace. \<^verbatim>\<open>completed_steps\<close> is a Python set, kept as a duplicate-free list.
\<close>

record loop_state =
  step_results :: "(string, val TaskResult) dict"
  completed_steps :: "string list"
  heap :: store
  calls :: "invocation list"

datatype exit = Returned | Raised exn | Unfinished

section \<open>Context enrichment\<close>

text \<open>
  \<^verbatim>\<open>_enhance_context\<close>: \<^verbatim>\<open>original_context.copy()\<close> allocates a new dictionary with the
  caller's entries, a shallow copy: the values are the same scalars and the same
  addresses. Then, for each dependency id present in \<^verbatim>\<open>previous_results\<close>, that result's
  \<^verbatim>\<open>data\<close> is stored under \<^verbatim>\<open>f"{dep_step_id}_result"\<close> in the copy, again as the value it
  is.
\<close>

fun add_dependency_results ::
  "string list \<Rightarrow> (string, val TaskResult) dict \<Rightarrow> addr \<Rightarrow> store \<Rightarrow> store" where
  "add_dependency_results [] previous_results ec h = h"
| "add_dependency_results (dep_step_id # deps) previous_results ec h =
     add_dependency_results deps previous_results ec
       (case map_of previous_results dep_step_id of
          Some r \<Rightarrow>
            h[ec := ODict (AList.update (dep_step_id @ ''_result'') (data r) (entries (h ! ec)))]
        | None \<Rightarrow> h)"

definition enhance_context ::
  "WorkflowStep \<Rightarrow> addr \<Rightarrow> (string, val TaskResult) dict \<Rightarrow> store \<Rightarrow> addr \<times> store" where
  "enhance_context step original_context previous_results h =
     (case alloc h (ODict (entries (h ! original_context))) of
        (enhanced_context, h1) \<Rightarrow>
          (enhanced_context,
           add_dependency_results (dependencies step) previous_results enhanced_context h1))"

section \<open>Wavefront execution\<close>

text \<open>The list comprehension that selects the steps whose dependencies are met.\<close>

definition ready_steps :: "WorkflowStep list \<Rightarrow> string list \<Rightarrow> WorkflowStep list" where
  "ready_steps workflow_steps completed =
     filter (\<lambda>step. step_id step \<notin> set completed
                     \<and> list_all (\<lambda>dep. dep \<in> set completed) (dependencies step))
            workflow_steps"

text \<open>
  The first \<^verbatim>\<open>for\<close> loop of a wave: for each ready step whose agent is registered, build
  the enhanced context and create the coroutine; a step whose agent is absent is skipped.
\<close>

fun create_tasks ::
  "registry \<Rightarrow> addr \<Rightarrow> (string, val TaskResult) dict \<Rightarrow> WorkflowStep list \<Rightarrow> store
     \<Rightarrow> coroutine list \<times> store" where
  "create_tasks reg ctx results [] h = ([], h)"
| "create_tasks reg ctx results (step # steps) h =
     (case get_agent reg (agent_name step) of
        None \<Rightarrow> create_tasks reg ctx results steps h
      | Some ag \<Rightarrow>
          (case enhance_context step ctx results h of
             (enhanced_context, h1) \<Rightarrow>
               (case create_tasks reg ctx results steps h1 of
                  (tasks, h2) \<Rightarrow> (Coroutine step ag enhanced_context # tasks, h2))))"

text \<open>
  The second \<^verbatim>\<open>for\<close> loop of a wave: await the coroutines one after the other, in the
  order of their creation. Awaiting runs the agent, with the address of its context
  dictionary, on the store as it is by then. A result is stored under the step id and the
  id joins the completed set; an exception leaves the loop at once.
\<close>

fun await_tasks :: "coroutine list \<Rightarrow> loop_state \<Rightarrow> exn option \<times> loop_state" where
  "await_tasks [] st = (None, st)"
| "await_tasks (Coroutine step ag ec # tasks) st =
     (case ag (task_description step) ec (heap st) of
        (outcome, h) \<Rightarrow>
          (let st1 = st\<lparr>heap := h,
                        calls := calls st @
                          [\<lparr>call_step = step, call_addr = ec, call_store = heap st,
                            call_results = step_results st\<rparr>]\<rparr>
           in case outcome of
                Inl e \<Rightarrow> (Some e, st1)
              | Inr result \<Rightarrow>
                  await_tasks tasks
                    (st1\<lparr>step_results := AList.update (step_id step) result (step_results st1),
                         completed_steps := List.insert (step_id step) (completed_steps st1)\<rparr>)))"

text \<open>
  The \<^verbatim>\<open>while\<close> loop. It need not terminate, so it carries a bound on the number of
  waves still allowed: \<open>Unfinished\<close> says that a further wave was due when the bound was
  used up.
\<close>

fun execute_waves ::
  "nat \<Rightarrow> registry \<Rightarrow> WorkflowStep list \<Rightarrow> addr \<Rightarrow> loop_state \<Rightarrow> exit \<times> loop_state" where
  "execute_waves n reg workflow_steps ctx st =
     (if length (completed_steps st) < length workflow_steps then
        (case ready_steps workflow_steps (completed_steps st) of
           [] \<Rightarrow> (Returned, st)
         | r # rs \<Rightarrow>
             (case n of
                0 \<Rightarrow> (Unfinished, st)
              | Suc m \<Rightarrow>
                  (case create_tasks reg ctx (step_results st) (r # rs) (heap st) of
                     (tasks, h) \<Rightarrow>
                       (case await_tasks tasks (st\<lparr>heap := h\<rparr>) of
                          (Some e, st') \<Rightarrow> (Raised e, st')
                        | (None, st') \<Rightarrow> execute_waves m reg workflow_steps ctx st'))))
      else (Returned, st))"

declare execute_waves.simps [simp del]

definition execute_workflow_steps ::
  "nat \<Rightarrow> registry \<Rightarrow> WorkflowStep list \<Rightarrow> addr \<Rightarrow> store \<Rightarrow> exit \<times> loop_state" where
  "execute_workflow_steps n reg workflow_steps ctx h =
     execute_waves n reg workflow_steps ctx
       \<lparr>step_results = [], completed_steps = [], heap = h, calls = []\<rparr>"

section \<open>Workflow definitions\<close>

definition mk_step :: "string \<Rightarrow> string \<Rightarrow> string \<Rightarrow> string list \<Rightarrow> int \<Rightarrow> WorkflowStep" where
  \<comment> \<open>The dataclass constructor with the default \<^verbatim>\<open>priority=1\<close>.\<close>
  "mk_step sid ag descr deps dur =
     \<lparr>step_id = sid, agent_name = ag, task_description = descr, dependencies = deps,
      expected_duration = dur, priority = 1\<rparr>"

definition workflows :: "(WorkflowType, WorkflowStep list) dict" where
  "workflows =
     [(REAL_ESTATE_DEVELOPMENT,
        [mk_step ''market_analysis'' ''real_estate_analyst''
           ''Analyze market conditions and property values for development site'' [] 30,
         mk_step ''construction_planning'' ''construction_coordinator''
           ''Develop construction timeline and resource requirements'' [''market_analysis''] 45,
         mk_step ''marketing_strategy'' ''marketing_strategist''
           ''Create marketing strategy for property sales/leasing'' [''market_analysis''] 35]),
      (HEALTHCARE_FACILITY,
        [mk_step ''regulatory_compliance'' ''medical_research_assistant''
           ''Review healthcare facility regulatory requirements'' [] 40,
         mk_step ''facility_construction'' ''construction_coordinator''
           ''Plan healthcare facility construction with medical requirements''
           [''regulatory_compliance''] 50,
         mk_step ''real_estate_evaluation'' ''real_estate_analyst''
           ''Evaluate real estate options for healthcare facility'' [] 25,
         mk_step ''marketing_outreach'' ''marketing_strategist''
           ''Develop patient acquisition and community outreach strategy''
           [''regulatory_compliance''] 30]),
      (BUSINESS_EXPANSION,
        [mk_step ''market_research'' ''marketing_strategist''
           ''Research target markets and competitive landscape'' [] 40,
         mk_step ''location_analysis'' ''real_estate_analyst''
           ''Analyze potential business locations and real estate costs''
           [''market_research''] 35,
         mk_step ''facility_planning'' ''construction_coordinator''
           ''Plan facility modifications and construction requirements''
           [''location_analysis''] 30])]"

definition get_workflow_definition :: "WorkflowType \<Rightarrow> WorkflowStep list" where
  \<comment> \<open>\<^verbatim>\<open>workflows.get(workflow_type, [])\<close>\<close>
  "get_workflow_definition workflow_type =
     (case map_of workflows workflow_type of Some steps \<Rightarrow> steps | None \<Rightarrow> [])"

section \<open>Summary and recommendations\<close>

text \<open>
  \<^verbatim>\<open>v[:n]\<close> and the iteration that \<^verbatim>\<open>list.extend\<close> performs, on dynamically typed values.
  Lists and strings can be sliced; slicing a dictionary or a scalar raises (for a
  dictionary the exception is a \<^verbatim>\<open>KeyError\<close> from Python 3.12 on; its kind plays no role
  below). Iterating a string yields its characters as one-character strings.
\<close>

definition py_slice_to :: "nat \<Rightarrow> pyval \<Rightarrow> exn + pyval" where
  "py_slice_to n v =
     (case v of PList xs \<Rightarrow> Inr (PList (take n xs))
              | PStr s \<Rightarrow> Inr (PStr (take n s))
              | _ \<Rightarrow> Inl TypeError)"

definition py_iter :: "pyval \<Rightarrow> exn + pyval list" where
  "py_iter v =
     (case v of PList xs \<Rightarrow> Inr xs
              | PStr s \<Rightarrow> Inr (map (\<lambda>c. PStr [c]) s)
              | PDict d \<Rightarrow> Inr (map (\<lambda>kv. PStr (fst kv)) d)
              | _ \<Rightarrow> Inl TypeError)"

definition first_two :: "pyval \<Rightarrow> exn + pyval list" where
  \<comment> \<open>the elements that \<^verbatim>\<open>xs.extend(v[:2])\<close> appends\<close>
  "first_two v = (case py_slice_to 2 v of Inl e \<Rightarrow> Inl e | Inr s \<Rightarrow> py_iter s)"

definition format_2f :: "pyval \<Rightarrow> exn option" where
  \<comment> \<open>whether \<^verbatim>\<open>f"{v:.2f}"\<close> raises; the digits themselves are not modelled. An integer
      is converted to a float first, which overflows from \<^verbatim>\<open>2**1024 - 2**970\<close> on.\<close>
  "format_2f v =
     (case v of
        PInt i \<Rightarrow> (if \<bar>i\<bar> < 2 ^ 1024 - 2 ^ 970 then None else Some OverflowError)
      | PFloat q \<Rightarrow> None | PBool b \<Rightarrow> None
      | PStr s \<Rightarrow> Some ValueError | _ \<Rightarrow> Some TypeError)"

text \<open>
  An entry of the insight list: either the formatted line
  \<^verbatim>\<open>f"{step_id}: High confidence analysis ({v:.2f})"\<close>, kept unformatted, or an item taken
  from a result's recommendations.
\<close>

datatype insight = HighConfidence string pyval | InsightItem pyval

definition step_insights :: "string \<Rightarrow> pyval TaskResult \<Rightarrow> exn + insight list" where
  \<comment> \<open>what one iteration of the loop of \<^verbatim>\<open>_extract_key_insights\<close> appends\<close>
  "step_insights sid result =
     (if success result then
        (case data result of
           PDict d \<Rightarrow>
             (case (case map_of d ''confidence'' of
                      None \<Rightarrow> Inr []
                    | Some v \<Rightarrow> (case format_2f v of
                                   Some e \<Rightarrow> Inl e
                                 | None \<Rightarrow> Inr [HighConfidence sid v])) of
                Inl e \<Rightarrow> Inl e
              | Inr line \<Rightarrow>
                  (case map_of d ''recommendations'' of
                     None \<Rightarrow> Inr line
                   | Some v \<Rightarrow> (case first_two v of
                                  Inl e \<Rightarrow> Inl e
                                | Inr items \<Rightarrow> Inr (line @ map InsightItem items))))
         | _ \<Rightarrow> Inr [])
      else Inr [])"

fun extend_insights :: "(string, pyval TaskResult) dict \<Rightarrow> insight list \<Rightarrow> exn + insight list" where
  "extend_insights [] insights = Inr insights"
| "extend_insights ((sid, result) # rest) insights =
     (case step_insights sid result of
        Inl e \<Rightarrow> Inl e
      | Inr new \<Rightarrow> extend_insights rest (insights @ new))"

definition extract_key_insights ::
  "WorkflowType \<Rightarrow> (string, pyval TaskResult) dict \<Rightarrow> exn + insight list" where
  "extract_key_insights workflow_type results =
     (case extend_insights results [] of Inl e \<Rightarrow> Inl e | Inr insights \<Rightarrow> Inr (take 5 insights))"

definition identify_synergies :: "(string, pyval TaskResult) dict \<Rightarrow> string list" where
  "identify_synergies results =
     take 3
       [''Real estate and construction analysis alignment ensures feasible development timeline'',
        ''Marketing insights inform construction design for target market appeal'',
        ''Regulatory compliance requirements integrated into construction planning'',
        ''Market analysis validates investment assumptions across all domains'']"

definition step_risks :: "pyval TaskResult \<Rightarrow> exn + pyval list" where
  "step_risks result =
     (if success result then
        (case data result of
           PDict d \<Rightarrow> (case map_of d ''risk_factors'' of None \<Rightarrow> Inr [] | Some v \<Rightarrow> first_two v)
         | _ \<Rightarrow> Inr [])
      else Inr [])"

fun extend_risks :: "pyval TaskResult list \<Rightarrow> pyval list \<Rightarrow> exn + pyval list" where
  "extend_risks [] risks = Inr risks"
| "extend_risks (result # rest) risks =
     (case step_risks result of Inl e \<Rightarrow> Inl e | Inr new \<Rightarrow> extend_risks rest (risks @ new))"

definition identify_risks :: "(string, pyval TaskResult) dict \<Rightarrow> exn + pyval list" where
  "identify_risks results =
     (case extend_risks (map snd results) [] of
        Inl e \<Rightarrow> Inl e
      | Inr risks \<Rightarrow>
          Inr (take 5 (risks @
            [PStr ''Coordination challenges between multiple specialized teams'',
             PStr ''Timeline dependencies may create bottlenecks'',
             PStr ''Budget allocation across domains requires careful management''])))"

record business_impact =
  overall_impact_score :: rat
  impact_breakdown :: "(string, int) dict"
  roi_projection :: string
  strategic_value :: string

definition assess_business_impact ::
  "WorkflowType \<Rightarrow> (string, pyval TaskResult) dict \<Rightarrow> business_impact" where
  "assess_business_impact workflow_type results =
     (let impact_scores = [(''efficiency_gain'', 85), (''risk_reduction'', 70),
                           (''decision_quality'', 90), (''time_savings'', 60)]
      in \<lparr>overall_impact_score =
              of_int (sum_list (map snd impact_scores)) / of_nat (length impact_scores),
          impact_breakdown = impact_scores,
          roi_projection = ''250-300% over 12 months'',
          strategic_value = ''High - enables data-driven decision making across domains''\<rparr>)"

text \<open>
  The success rate is the string \<^verbatim>\<open>"0%"\<close> for no steps and a percentage printed with one
  decimal otherwise; the percentage is kept exact.
\<close>

datatype rate = ZeroPercent | Percent rat

record execution_summary =
  total_steps :: nat
  successful_steps :: nat
  success_rate :: rate
  average_confidence :: rat

datatype summary =
    WorkflowSummary string execution_summary "insight list" "string list" "pyval list"
      business_impact
  | ErrorSummary exn

definition workflow_type_value :: "WorkflowType \<Rightarrow> string" where
  "workflow_type_value t =
     (case t of REAL_ESTATE_DEVELOPMENT \<Rightarrow> ''real_estate_development''
              | BUSINESS_EXPANSION \<Rightarrow> ''business_expansion''
              | HEALTHCARE_FACILITY \<Rightarrow> ''healthcare_facility''
              | MARKETING_CAMPAIGN \<Rightarrow> ''marketing_campaign''
              | CONSTRUCTION_PROJECT \<Rightarrow> ''construction_project'')"

definition generate_workflow_summary ::
  "WorkflowType \<Rightarrow> (string, pyval TaskResult) dict \<Rightarrow> exn + summary" where
  "generate_workflow_summary workflow_type results =
     (let successful = length (filter success (map snd results));
          total = length results;
          es = \<lparr>total_steps = total, successful_steps = successful,
                success_rate = (if total > 0
                                then Percent (of_nat successful / of_nat total * 100)
                                else ZeroPercent),
                average_confidence = (if results \<noteq> []
                                      then sum_list (map (confidence \<circ> snd) results)
                                             / of_nat (length results)
                                      else 0)\<rparr>
      in case extract_key_insights workflow_type results of
           Inl e \<Rightarrow> Inl e
         | Inr insights \<Rightarrow>
             (case identify_risks results of
                Inl e \<Rightarrow> Inl e
              | Inr risks \<Rightarrow>
                  Inr (WorkflowSummary (workflow_type_value workflow_type) es insights
                         (identify_synergies results) risks
                         (assess_business_impact workflow_type results))))"

definition generic_recommendations :: "pyval list" where
  "generic_recommendations =
     [PStr ''Implement integrated project management system for cross-domain coordination'',
      PStr ''Establish regular cross-functional team meetings for alignment'',
      PStr ''Develop standardized reporting templates for consistent communication'',
      PStr ''Create shared dashboard for real-time project visibility'',
      PStr ''Invest in training for multi-domain collaboration skills'']"

definition domain_recommendations :: "pyval TaskResult \<Rightarrow> exn + pyval list" where
  \<comment> \<open>what one iteration of the loop of \<^verbatim>\<open>_generate_recommendations\<close> appends\<close>
  "domain_recommendations result =
     (if success result then
        (case data result of
           PDict d \<Rightarrow>
             (case map_of d ''recommendations'' of None \<Rightarrow> Inr [] | Some v \<Rightarrow> first_two v)
         | _ \<Rightarrow> Inr [])
      else Inr [])"

fun extend_recommendations :: "pyval TaskResult list \<Rightarrow> pyval list \<Rightarrow> exn + pyval list" where
  "extend_recommendations [] recommendations = Inr recommendations"
| "extend_recommendations (result # rest) recommendations =
     (case domain_recommendations result of
        Inl e \<Rightarrow> Inl e
      | Inr new \<Rightarrow> extend_recommendations rest (recommendations @ new))"

definition generate_recommendations ::
  "WorkflowType \<Rightarrow> (string, pyval TaskResult) dict \<Rightarrow> exn + pyval list" where
  "generate_recommendations workflow_type results =
     (case extend_recommendations (map snd results) generic_recommendations of
        Inl e \<Rightarrow> Inl e
      | Inr recommendations \<Rightarrow> Inr (take 8 recommendations))"

section \<open>The entry point\<close>

text \<open>
  \<^verbatim>\<open>WorkflowResult\<close> without its two wall-clock fields (\<^verbatim>\<open>total_duration\<close>, \<^verbatim>\<open>timestamp\<close>).
\<close>

record WorkflowResult =
  wr_workflow_type :: WorkflowType
  wr_success :: bool
  wr_step_results :: "(string, val TaskResult) dict"
  wr_summary :: summary
  wr_recommendations :: "pyval list"

definition error_result :: "WorkflowType \<Rightarrow> exn \<Rightarrow> WorkflowResult" where
  \<comment> \<open>the result built by the \<^verbatim>\<open>except Exception\<close> branch\<close>
  "error_result workflow_type e =
     \<lparr>wr_workflow_type = workflow_type, wr_success = False, wr_step_results = [],
      wr_summary = ErrorSummary e,
      wr_recommendations = [PStr ''Review workflow configuration and try again'']\<rparr>"

text \<open>
  The summary functions read the payloads of the results as they are in the store when
  the loop has ended.
\<close>

definition read_result :: "store \<Rightarrow> val TaskResult \<Rightarrow> pyval TaskResult" where
  "read_result h r =
     \<lparr>success = success r, data = view h (data r), confidence = confidence r,
      execution_time = execution_time r, metadata = metadata r, timestamp = timestamp r\<rparr>"

definition read_results ::
  "store \<Rightarrow> (string, val TaskResult) dict \<Rightarrow> (string, pyval TaskResult) dict" where
  "read_results h results = map (\<lambda>kv. (fst kv, read_result h (snd kv))) results"

text \<open>
  The body of \<^verbatim>\<open>execute_workflow\<close> once the step list is known. The result is \<open>None\<close>
  when the wave bound was used up before the loop ended; the final store and the trace of
  executor invocations are returned beside it.
\<close>

definition execute_definition ::
  "nat \<Rightarrow> registry \<Rightarrow> WorkflowType \<Rightarrow> WorkflowStep list \<Rightarrow> addr \<Rightarrow> store
     \<Rightarrow> WorkflowResult option \<times> store \<times> invocation list" where
  "execute_definition n reg workflow_type workflow_steps ctx h =
     (case execute_workflow_steps n reg workflow_steps ctx h of
        (x, st) \<Rightarrow>
          ((case x of
              Unfinished \<Rightarrow> None
            | Raised e \<Rightarrow> Some (error_result workflow_type e)
            | Returned \<Rightarrow>
                (case generate_workflow_summary workflow_type
                        (read_results (heap st) (step_results st)) of
                   Inl e \<Rightarrow> Some (error_result workflow_type e)
                 | Inr summ \<Rightarrow>
                     (case generate_recommendations workflow_type
                             (read_results (heap st) (step_results st)) of
                        Inl e \<Rightarrow> Some (error_result workflow_type e)
                      | Inr recommendations \<Rightarrow>
                          Some \<lparr>wr_workflow_type = workflow_type,
                                wr_success = list_all success (map snd (step_results st)),
                                wr_step_results = step_results st,
                                wr_summary = summ,
                                wr_recommendations = recommendations\<rparr>))),
           heap st, calls st))"

definition execute_workflow ::
  "nat \<Rightarrow> registry \<Rightarrow> WorkflowType \<Rightarrow> addr \<Rightarrow> store
     \<Rightarrow> WorkflowResult option \<times> store \<times> invocation list" where
  "execute_workflow n reg workflow_type ctx h =
     execute_definition n reg workflow_type (get_workflow_definition workflow_type) ctx h"

section \<open>Reference definitions and scenarios\<close>

subsection \<open>Stub executors\<close>

definition stub_result :: "pyval TaskResult" where
  "stub_result =
     \<lparr>success = True, data = PDict [], confidence = 9 / 10, execution_time = 0,
      metadata = [], timestamp = 0\<rparr>"

definition ok_result :: "val \<Rightarrow> val TaskResult" where
  \<comment> \<open>\<^verbatim>\<open>TaskResult(success=True, data=v, confidence=0.9)\<close>\<close>
  "ok_result v =
     \<lparr>success = True, data = v, confidence = 9 / 10, execution_time = 0,
      metadata = [], timestamp = 0\<rparr>"

definition stub_agent :: agent where
  \<comment> \<open>always succeeds, with a new empty dictionary as payload, and writes nowhere else\<close>
  "stub_agent task a h = (Inr (ok_result (VRef (length h))), h @ [ODict []])"

definition stub_registry :: registry where
  "stub_registry name = (if name = ''stub'' then Some stub_agent else None)"







definition faulty_agent :: agent where
  \<comment> \<open>raises\<close>
  "faulty_agent task a h = (Inl (AgentFault ''boom''), h)"

definition faulty_registry :: registry where
  "faulty_registry name = (if name = ''stub'' then Some faulty_agent else None)"

subsection \<open>Scenario workflows\<close>

definition site_store :: store where
  \<comment> \<open>the caller's context \<^verbatim>\<open>{"site": {"name": "plot 7"}}\<close> at address 0\<close>
  "site_store = [ODict [(''site'', VRef 1)], ODict [(''name'', VStr ''plot 7'')]]"

definition abc :: "WorkflowStep list" where
  "abc = [mk_step ''A'' ''stub'' ''survey'' [] 10,
          mk_step ''B'' ''stub'' ''budget'' [] 10,
          mk_step ''C'' ''stub'' ''plan'' [''A'', ''B''] 10]"

definition dangling :: "WorkflowStep list" where
  \<comment> \<open>step B depends on an id that no step has\<close>
  "dangling = [mk_step ''A'' ''stub'' ''survey'' [] 10,
               mk_step ''B'' ''stub'' ''plan'' [''X''] 10]"

definition ghost_pair :: "WorkflowStep list" where
  \<comment> \<open>step A names an agent that is not registered\<close>
  "ghost_pair = [mk_step ''A'' ''ghost'' ''survey'' [] 10,
                 mk_step ''B'' ''stub'' ''budget'' [] 10]"

definition ghost_only :: "WorkflowStep list" where
  "ghost_only = [mk_step ''A'' ''ghost'' ''survey'' [] 10]"

text \<open>
  What the executor of step C of \<open>abc\<close> is called with, when the stub agent, and when the
  echo agent, runs all three steps.
\<close>

definition call_C :: invocation where
  "call_C =
     \<lparr>call_step = mk_step ''C'' ''stub'' ''plan'' [''A'', ''B''] 10,
      call_addr = 6,
      call_store =
        [ODict [(''site'', VRef 1)], ODict [(''name'', VStr ''plot 7'')],
         ODict [(''site'', VRef 1)], ODict [(''site'', VRef 1)], ODict [], ODict [],
         ODict [(''site'', VRef 1), (''A_result'', VRef 4), (''B_result'', VRef 5)]],
      call_results = [(''A'', ok_result (VRef 4)), (''B'', ok_result (VRef 5))]\<rparr>"




text \<open>Whether a result is the one built by the \<^verbatim>\<open>except Exception\<close> branch.\<close>

definition failed_outright :: "WorkflowResult \<Rightarrow> bool" where
  "failed_outright r =
     (case wr_summary r of ErrorSummary e \<Rightarrow> True | WorkflowSummary a b c d e f \<Rightarrow> False)"

subsection \<open>Recommendation merging, as a closed form\<close>

text \<open>
  The recommendation list that a successful result carries in its payload, and the merge
  of the generic advice with the first two items of each step, cut at eight entries.
\<close>

definition recommended :: "pyval TaskResult \<Rightarrow> pyval list" where
  "recommended r =
     (if success r then
        (case data r of
           PDict d \<Rightarrow> (case map_of d ''recommendations'' of Some (PList xs) \<Rightarrow> xs | _ \<Rightarrow> [])
         | _ \<Rightarrow> [])
      else [])"

definition merged_recommendations :: "(string, pyval TaskResult) dict \<Rightarrow> pyval list" where
  "merged_recommendations results =
     take 8 (generic_recommendations
               @ concat (map (\<lambda>kv. take 2 (recommended (snd kv))) results))"

text \<open>
  A payload is regular when the \<^verbatim>\<open>"recommendations"\<close> entry of a successful dictionary
  payload, if there is one, is a list.
\<close>

definition list_payload :: "pyval TaskResult \<Rightarrow> bool" where
  "list_payload r =
     (case data r of
        PDict d \<Rightarrow> (case map_of d ''recommendations'' of
                      Some v \<Rightarrow> (case v of PList xs \<Rightarrow> True | _ \<Rightarrow> \<not> success r)
                    | None \<Rightarrow> True)
      | _ \<Rightarrow> True)"

definition advice :: "string list \<Rightarrow> pyval TaskResult" where
  "advice xs = stub_result\<lparr>data := PDict [(''recommendations'', PList (map PStr xs))]\<rparr>"

definition repeated_advice :: "(string, pyval TaskResult) dict" where
  "repeated_advice = [(''A'', advice [''Hire locally'', ''Hire locally''])]"

definition much_advice :: "(string, pyval TaskResult) dict" where
  "much_advice = [(''A'', advice [''a1'', ''a2'', ''a3'']), (''B'', advice [''b1'', ''b2''])]"

subsection \<open>Enriched contexts, as values\<close>



subsection \<open>The two halves of an await\<close>

text \<open>
  Awaiting a coroutine first runs the agent (\<open>started\<close>: the store and the trace change)
  and then, unless it raised, records the result (\<open>finished\<close>).
\<close>

definition started :: "coroutine \<Rightarrow> loop_state \<Rightarrow> loop_state" where
  "started t st =
     st\<lparr>heap := snd (co_agent t (task_description (co_step t)) (co_addr t) (heap st)),
        calls := calls st @
          [\<lparr>call_step = co_step t, call_addr = co_addr t, call_store = heap st,
            call_results = step_results st\<rparr>]\<rparr>"

definition finished :: "coroutine \<Rightarrow> val TaskResult \<Rightarrow> loop_state \<Rightarrow> loop_state" where
  "finished t r st =
     st\<lparr>step_results := AList.update (step_id (co_step t)) r (step_results st),
        completed_steps := List.insert (step_id (co_step t)) (completed_steps st)\<rparr>"

subsection \<open>Invariants of the trace\<close>

text \<open>
  An invocation is sound when its step belongs to the workflow and has a registered agent,
  every dependency of the step had a recorded result when the executor started, and only
  step ids of the workflow had results. A result is \<open>recorded\<close> under a step id when it is
  what the registered agent of a step with that id returned, applied to the address and
  the store of one of the invocations. \<open>trace_inv\<close> is the invariant between waves,
  \<open>wave_inv\<close> the invariant between the awaits of one wave, relative to the results
  \<open>res0\<close> at the start of the wave.
\<close>

definition sound_call :: "registry \<Rightarrow> WorkflowStep list \<Rightarrow> invocation \<Rightarrow> bool" where
  "sound_call reg steps c \<longleftrightarrow>
     call_step c \<in> set steps
   \<and> get_agent reg (agent_name (call_step c)) \<noteq> None
   \<and> set (dependencies (call_step c)) \<subseteq> fst ` set (call_results c)
   \<and> fst ` set (call_results c) \<subseteq> step_id ` set steps"

definition returned_by :: "registry \<Rightarrow> invocation \<Rightarrow> val TaskResult \<Rightarrow> bool" where
  "returned_by reg c r \<longleftrightarrow>
     (\<exists>ag. get_agent reg (agent_name (call_step c)) = Some ag
         \<and> fst (ag (task_description (call_step c)) (call_addr c) (call_store c)) = Inr r)"

definition recorded ::
  "registry \<Rightarrow> invocation list \<Rightarrow> string \<Rightarrow> val TaskResult \<Rightarrow> bool" where
  "recorded reg trace k r \<longleftrightarrow>
     (\<exists>c. c \<in> set trace \<and> step_id (call_step c) = k \<and> returned_by reg c r)"

definition trace_inv :: "registry \<Rightarrow> WorkflowStep list \<Rightarrow> loop_state \<Rightarrow> bool" where
  "trace_inv reg steps st \<longleftrightarrow>
     set (completed_steps st) = fst ` set (step_results st)
   \<and> distinct (completed_steps st)
   \<and> (\<forall>k r. map_of (step_results st) k = Some r \<longrightarrow> recorded reg (calls st) k r)
   \<and> (\<forall>c. c \<in> set (calls st) \<longrightarrow> sound_call reg steps c)"

definition pending ::
  "registry \<Rightarrow> WorkflowStep list \<Rightarrow> (string, val TaskResult) dict \<Rightarrow> coroutine \<Rightarrow> bool" where
  "pending reg steps res0 t \<longleftrightarrow>
     co_step t \<in> set steps
   \<and> get_agent reg (agent_name (co_step t)) = Some (co_agent t)
   \<and> set (dependencies (co_step t)) \<subseteq> fst ` set res0
   \<and> step_id (co_step t) \<notin> fst ` set res0"

definition wave_inv ::
  "registry \<Rightarrow> WorkflowStep list \<Rightarrow> (string, val TaskResult) dict \<Rightarrow> coroutine list
     \<Rightarrow> loop_state \<Rightarrow> bool" where
  "wave_inv reg steps res0 ts st \<longleftrightarrow>
     trace_inv reg steps st
   \<and> (\<forall>d. d \<in> fst ` set res0 \<longrightarrow> map_of (step_results st) d = map_of res0 d)
   \<and> (\<forall>t. t \<in> set ts \<longrightarrow> pending reg steps res0 t)"

subsection \<open>Serial execution\<close>



subsection \<open>Executors that leave some objects alone\<close>

text \<open>
  The registry \<open>protects\<close> a set of addresses when no registered agent shrinks the store or
  changes an object at a protected address other than the dictionary it was handed. Under
  this condition the contexts keep their entries from their creation to the moment they
  are handed over: \<open>handed\<close> says of an invocation that the dictionary at its address
  had the caller's entries \<open>c0\<close>, overridden by one entry per dependency. \<open>store_inv\<close> is
  the invariant between waves, \<open>fresh_inv\<close> the invariant between the awaits of one wave.
\<close>

definition protects :: "registry \<Rightarrow> (addr \<Rightarrow> bool) \<Rightarrow> bool" where
  "protects reg P \<longleftrightarrow>
     (\<forall>name ag task a h. reg name = Some ag \<longrightarrow>
        length h \<le> length (snd (ag task a h))
      \<and> (\<forall>b. b < length h \<and> b \<noteq> a \<and> P b \<longrightarrow> snd (ag task a h) ! b = h ! b))"




section \<open>Lemmas\<close>

subsection \<open>Recommendations\<close>

lemma domain_recommendations_list:
  "list_payload r \<Longrightarrow> domain_recommendations r = Inr (take 2 (recommended r))"
  by (auto simp: list_payload_def domain_recommendations_def recommended_def first_two_def
        py_slice_to_def py_iter_def split: pyval.splits option.splits)

lemma extend_recommendations_list:
  "list_all list_payload rs \<Longrightarrow>
     extend_recommendations rs acc = Inr (acc @ concat (map (\<lambda>r. take 2 (recommended r)) rs))"
  by (induction rs arbitrary: acc) (simp_all add: domain_recommendations_list)

subsection \<open>The store\<close>

lemma add_dependency_results_length [simp]:
  "length (add_dependency_results deps prev ec h) = length h"
  by (induction deps arbitrary: h) (simp_all split: option.splits)


lemma entries_ODict [simp]: "entries (ODict d) = d"
  by (simp add: entries_def)


lemma enhance_context_addr: "fst (enhance_context s ctx prev h) = length h"
  by (simp add: enhance_context_def alloc_def)







text \<open>
  An invariant of the wave loop: what holds of the initial state and is kept by one wave
  (task creation followed by the awaits) holds of the state the loop ends in, whatever
  the exit.
\<close>

lemma execute_waves_invariant:
  assumes init: "P st"
    and wave: "\<And>st r rs. P st \<Longrightarrow> ready_steps steps (completed_steps st) = r # rs \<Longrightarrow>
        P (snd (await_tasks (fst (create_tasks reg ctx (step_results st) (r # rs) (heap st)))
                  (st\<lparr>heap := snd (create_tasks reg ctx (step_results st) (r # rs) (heap st))\<rparr>)))"
  shows "P (snd (execute_waves n reg steps ctx st))"
  using init
proof (induction n arbitrary: st)
  case 0
  then show ?case by (subst execute_waves.simps) (simp split: list.splits)
next
  case (Suc n)
  show ?case
  proof (cases "length (completed_steps st) < length steps")
    case False
    then show ?thesis using Suc.prems by (subst execute_waves.simps) simp
  next
    case True
    show ?thesis
    proof (cases "ready_steps steps (completed_steps st)")
      case Nil
      then show ?thesis using True Suc.prems by (subst execute_waves.simps) simp
    next
      case (Cons r rs)
      obtain tasks h where c: "create_tasks reg ctx (step_results st) (r # rs) (heap st) = (tasks, h)"
        by (cases "create_tasks reg ctx (step_results st) (r # rs) (heap st)")
      obtain x st' where a: "await_tasks tasks (st\<lparr>heap := h\<rparr>) = (x, st')"
        by (cases "await_tasks tasks (st\<lparr>heap := h\<rparr>)")
      have P': "P st'" using wave [OF Suc.prems Cons] c a by simp
      show ?thesis
      proof (cases x)
        case None
        then show ?thesis using True Cons c a Suc.IH [OF P'] by (subst execute_waves.simps) simp
      next
        case (Some e)
        then show ?thesis using True Cons c a P' by (subst execute_waves.simps) simp
      qed
    qed
  qed
qed

subsection \<open>Task creation\<close>

lemma create_tasks_Cons_None:
  "get_agent reg (agent_name s) = None \<Longrightarrow>
     create_tasks reg ctx res (s # ss) h = create_tasks reg ctx res ss h"
  by simp

lemma create_tasks_Cons_Some:
  "get_agent reg (agent_name s) = Some ag \<Longrightarrow>
     create_tasks reg ctx res (s # ss) h =
       (Coroutine s ag (length h)
          # fst (create_tasks reg ctx res ss (snd (enhance_context s ctx res h))),
        snd (create_tasks reg ctx res ss (snd (enhance_context s ctx res h))))"
  using enhance_context_addr [of s ctx res h]
  by (cases "enhance_context s ctx res h";
      cases "create_tasks reg ctx res ss (snd (enhance_context s ctx res h))") simp

lemma create_tasks_steps:
  "map co_step (fst (create_tasks reg ctx res ready h))
     = filter (\<lambda>s. get_agent reg (agent_name s) \<noteq> None) ready"
proof (induction ready arbitrary: h)
  case Nil
  show ?case by simp
next
  case (Cons s ss)
  show ?case
  proof (cases "get_agent reg (agent_name s)")
    case None
    then show ?thesis using Cons.IH [of h] by (simp only: create_tasks_Cons_None) simp
  next
    case (Some ag)
    then show ?thesis
      using Cons.IH [of "snd (enhance_context s ctx res h)"]
      by (simp only: create_tasks_Cons_Some) simp
  qed
qed

lemma create_tasks_registered:
  "t \<in> set (fst (create_tasks reg ctx res ready h)) \<Longrightarrow>
     co_step t \<in> set ready \<and> get_agent reg (agent_name (co_step t)) \<noteq> None"
proof -
  assume "t \<in> set (fst (create_tasks reg ctx res ready h))"
  then have "co_step t \<in> set (map co_step (fst (create_tasks reg ctx res ready h)))"
    by simp
  then show ?thesis by (simp only: create_tasks_steps) simp
qed



lemma create_tasks_agent:
  "t \<in> set (fst (create_tasks reg ctx res ready h)) \<Longrightarrow>
     get_agent reg (agent_name (co_step t)) = Some (co_agent t)"
proof (induction ready arbitrary: h)
  case Nil
  then show ?case by simp
next
  case (Cons s ss)
  show ?case
  proof (cases "get_agent reg (agent_name s)")
    case None
    then show ?thesis using Cons by (simp only: create_tasks_Cons_None)
  next
    case (Some ag)
    from Cons.prems Some
    have "t = Coroutine s ag (length h)
        \<or> t \<in> set (fst (create_tasks reg ctx res ss (snd (enhance_context s ctx res h))))"
      by (simp only: create_tasks_Cons_Some) auto
    then show ?thesis using Some Cons.IH by auto
  qed
qed

lemma ready_steps_member:
  "s \<in> set (ready_steps steps completed) \<Longrightarrow>
     s \<in> set steps \<and> step_id s \<notin> set completed \<and> set (dependencies s) \<subseteq> set completed"
  by (auto simp: ready_steps_def list_all_iff)

subsection \<open>Enriched contexts\<close>





subsection \<open>The trace invariant\<close>

lemma await_tasks_Cons:
  "await_tasks (t # ts) st =
     (case fst (co_agent t (task_description (co_step t)) (co_addr t) (heap st)) of
        Inl e \<Rightarrow> (Some e, started t st)
      | Inr r \<Rightarrow> await_tasks ts (finished t r (started t st)))"
  by (cases t) (simp add: started_def finished_def Let_def split: prod.splits sum.splits)

lemma recorded_append:
  "recorded reg trace k r \<Longrightarrow> recorded reg (trace @ later) k r"
  unfolding recorded_def by auto

lemma wave_inv_Nil: "wave_inv reg steps res0 [] st \<Longrightarrow> trace_inv reg steps st"
  by (simp add: wave_inv_def)

lemma trace_inv_keys_steps:
  assumes "trace_inv reg steps st"
  shows "fst ` set (step_results st) \<subseteq> step_id ` set steps"
proof
  fix k assume "k \<in> fst ` set (step_results st)"
  then obtain r where "map_of (step_results st) k = Some r"
    by (metis map_of_eq_None_iff not_Some_eq)
  then have "recorded reg (calls st) k r"
    using assms unfolding trace_inv_def by blast
  then obtain c where c: "c \<in> set (calls st)" "step_id (call_step c) = k"
    unfolding recorded_def by blast
  then have "call_step c \<in> set steps"
    using assms unfolding trace_inv_def sound_call_def by blast
  then show "k \<in> step_id ` set steps" using c(2) by blast
qed

lemma wave_keys:
  assumes "wave_inv reg steps res0 ts st"
  shows "fst ` set res0 \<subseteq> fst ` set (step_results st)"
proof
  fix d assume d: "d \<in> fst ` set res0"
  then have "map_of (step_results st) d = map_of res0 d"
    using assms unfolding wave_inv_def by blast
  then show "d \<in> fst ` set (step_results st)"
    using d by (metis map_of_eq_None_iff)
qed

lemma wave_inv_started:
  assumes w: "wave_inv reg steps res0 (t # ts) st"
  shows "trace_inv reg steps (started t st)"
proof -
  from w have ti: "trace_inv reg steps st"
    and p: "pending reg steps res0 t"
    unfolding wave_inv_def by simp_all
  let ?c = "\<lparr>call_step = co_step t, call_addr = co_addr t, call_store = heap st,
             call_results = step_results st\<rparr>"
  have "set (dependencies (call_step ?c)) \<subseteq> fst ` set (call_results ?c)"
    using p wave_keys [OF w] by (auto simp: pending_def)
  moreover have "fst ` set (call_results ?c) \<subseteq> step_id ` set steps"
    using trace_inv_keys_steps [OF ti] by simp
  moreover have "call_step ?c \<in> set steps" "get_agent reg (agent_name (call_step ?c)) \<noteq> None"
    using p by (simp_all add: pending_def)
  ultimately have sc: "sound_call reg steps ?c"
    unfolding sound_call_def by blast
  have calls: "calls (started t st) = calls st @ [?c]"
    and same: "step_results (started t st) = step_results st"
      "completed_steps (started t st) = completed_steps st"
    by (simp_all add: started_def)
  have "\<forall>k r. map_of (step_results (started t st)) k = Some r
          \<longrightarrow> recorded reg (calls (started t st)) k r"
    using ti unfolding trace_inv_def calls same by (blast intro: recorded_append)
  moreover have "\<forall>c. c \<in> set (calls (started t st)) \<longrightarrow> sound_call reg steps c"
    using ti sc unfolding trace_inv_def calls by auto
  ultimately show ?thesis
    using ti unfolding trace_inv_def same by blast
qed

lemma wave_inv_finished:
  assumes w: "wave_inv reg steps res0 (t # ts) st"
    and r: "fst (co_agent t (task_description (co_step t)) (co_addr t) (heap st)) = Inr r"
  shows "wave_inv reg steps res0 ts (finished t r (started t st))"
proof -
  let ?s1 = "started t st"
  let ?st = "finished t r ?s1"
  let ?k = "step_id (co_step t)"
  let ?c = "\<lparr>call_step = co_step t, call_addr = co_addr t, call_store = heap st,
             call_results = step_results st\<rparr>"
  have ts: "trace_inv reg steps ?s1" by (rule wave_inv_started [OF w])
  from w have agree: "\<And>d. d \<in> fst ` set res0 \<Longrightarrow> map_of (step_results st) d = map_of res0 d"
    and p: "pending reg steps res0 t"
    and ps: "\<And>u. u \<in> set ts \<Longrightarrow> pending reg steps res0 u"
    unfolding wave_inv_def by simp_all
  have res: "step_results ?st = AList.update ?k r (step_results ?s1)"
    and com: "completed_steps ?st = List.insert ?k (completed_steps ?s1)"
    and calls: "calls ?st = calls ?s1" "calls ?s1 = calls st @ [?c]"
    and res1: "step_results ?s1 = step_results st"
    by (simp_all add: finished_def started_def)
  have "returned_by reg ?c r"
    using p r unfolding returned_by_def pending_def by simp
  then have new: "recorded reg (calls ?st) ?k r"
    unfolding recorded_def calls by auto
  have "set (completed_steps ?st) = fst ` set (step_results ?st)"
    using ts unfolding trace_inv_def res com by (simp add: dom_update)
  moreover have "distinct (completed_steps ?st)"
    using ts unfolding trace_inv_def com by simp
  moreover have "\<forall>k x. map_of (step_results ?st) k = Some x \<longrightarrow> recorded reg (calls ?st) k x"
  proof (intro allI impI)
    fix k x assume m: "map_of (step_results ?st) k = Some x"
    show "recorded reg (calls ?st) k x"
    proof (cases "k = ?k")
      case True
      then show ?thesis using m new unfolding res by (simp add: update_conv')
    next
      case False
      then have "map_of (step_results ?s1) k = Some x"
        using m unfolding res by (simp add: update_conv')
      then show ?thesis using ts unfolding trace_inv_def calls(1) by blast
    qed
  qed
  moreover have "\<forall>c. c \<in> set (calls ?st) \<longrightarrow> sound_call reg steps c"
    using ts unfolding trace_inv_def calls(1) by blast
  ultimately have ti: "trace_inv reg steps ?st"
    unfolding trace_inv_def by blast
  have "\<forall>d. d \<in> fst ` set res0 \<longrightarrow> map_of (step_results ?st) d = map_of res0 d"
  proof (intro allI impI)
    fix d assume d: "d \<in> fst ` set res0"
    then have "d \<noteq> ?k" using p unfolding pending_def by blast
    then show "map_of (step_results ?st) d = map_of res0 d"
      using agree [OF d] unfolding res res1 by (simp add: update_conv')
  qed
  then show ?thesis using ti ps unfolding wave_inv_def by blast
qed

lemma await_tasks_trace:
  "wave_inv reg steps res0 ts st \<Longrightarrow> trace_inv reg steps (snd (await_tasks ts st))"
proof (induction ts arbitrary: st)
  case Nil
  then show ?case by (simp add: wave_inv_Nil)
next
  case (Cons t ts)
  show ?case
  proof (cases "fst (co_agent t (task_description (co_step t)) (co_addr t) (heap st))")
    case (Inl e)
    then show ?thesis using wave_inv_started [OF Cons.prems] by (simp add: await_tasks_Cons)
  next
    case (Inr r)
    then show ?thesis
      using Cons.IH [OF wave_inv_finished [OF Cons.prems Inr]] by (simp add: await_tasks_Cons)
  qed
qed

lemma create_tasks_wave:
  assumes ti: "trace_inv reg steps st"
  shows "wave_inv reg steps (step_results st)
           (fst (create_tasks reg ctx (step_results st)
                   (ready_steps steps (completed_steps st)) (heap st)))
           (st\<lparr>heap := snd (create_tasks reg ctx (step_results st)
                   (ready_steps steps (completed_steps st)) (heap st))\<rparr>)"
proof -
  let ?ready = "ready_steps steps (completed_steps st)"
  let ?c = "create_tasks reg ctx (step_results st) ?ready (heap st)"
  let ?st = "st\<lparr>heap := snd ?c\<rparr>"
  from ti have keys: "set (completed_steps st) = fst ` set (step_results st)"
    by (simp add: trace_inv_def)
  have "trace_inv reg steps ?st"
    using ti by (simp add: trace_inv_def)
  moreover have "\<forall>t. t \<in> set (fst ?c) \<longrightarrow> pending reg steps (step_results st) t"
  proof (intro allI impI)
    fix t assume t: "t \<in> set (fst ?c)"
    from create_tasks_registered [OF t] have r: "co_step t \<in> set ?ready" by simp
    from ready_steps_member [OF r] keys
    have "co_step t \<in> set steps"
      and "step_id (co_step t) \<notin> fst ` set (step_results st)"
      and "set (dependencies (co_step t)) \<subseteq> fst ` set (step_results st)"
      by simp_all
    then show "pending reg steps (step_results st) t"
      using create_tasks_agent [OF t] unfolding pending_def by blast
  qed
  ultimately show ?thesis unfolding wave_inv_def by simp
qed

lemma execute_waves_trace:
  assumes "trace_inv reg steps st"
  shows "trace_inv reg steps (snd (execute_waves n reg steps ctx st))"
proof (rule execute_waves_invariant [where P = "trace_inv reg steps"])
  show "trace_inv reg steps st" by (rule assms)
next
  fix s r rs
  assume ti: "trace_inv reg steps s"
    and rd: "ready_steps steps (completed_steps s) = r # rs"
  show "trace_inv reg steps
          (snd (await_tasks (fst (create_tasks reg ctx (step_results s) (r # rs) (heap s)))
                  (s\<lparr>heap := snd (create_tasks reg ctx (step_results s) (r # rs) (heap s))\<rparr>)))"
    using await_tasks_trace [OF create_tasks_wave [OF ti, of ctx]] rd by simp
qed

lemma execute_workflow_steps_trace:
  "trace_inv reg steps (snd (execute_workflow_steps n reg steps ctx h))"
  unfolding execute_workflow_steps_def
  by (rule execute_waves_trace) (simp add: trace_inv_def)

subsection \<open>Protected objects\<close>







subsection \<open>Contexts from creation to hand-over\<close>







subsection \<open>The entry point\<close>

lemma execute_definition_calls:
  "snd (snd (execute_definition n reg wt steps ctx h))
     = calls (snd (execute_workflow_steps n reg steps ctx h))"
  by (cases "execute_workflow_steps n reg steps ctx h") (simp add: execute_definition_def)



lemma execute_definition_sound:
  assumes "c \<in> set (snd (snd (execute_definition n reg wt steps ctx h)))"
  shows "sound_call reg steps c"
  using execute_workflow_steps_trace [of reg steps n ctx h] assms
  unfolding execute_definition_calls trace_inv_def by blast




subsection \<open>Facts about the scenarios\<close>

lemma site_store_length: "0 < length site_store"
  by (simp add: site_store_def)

lemma abc_call_C:
  "call_C \<in> set (snd (snd (execute_definition 2 stub_registry REAL_ESTATE_DEVELOPMENT abc 0
                              site_store)))"
  by code_simp







lemma stub_protects: "protects stub_registry P"
  by (simp add: protects_def stub_registry_def stub_agent_def nth_append)

subsection \<open>Steps that never run\<close>

lemma trace_inv_uncalled:
  assumes ti: "trace_inv reg steps st"
    and d: "distinct (map step_id steps)"
    and s: "s \<in> set steps" "s \<notin> call_step ` set (calls st)"
  shows "step_id s \<notin> fst ` set (step_results st)"
proof
  assume "step_id s \<in> fst ` set (step_results st)"
  then obtain r where "map_of (step_results st) (step_id s) = Some r"
    by (metis map_of_eq_None_iff not_Some_eq)
  then have "recorded reg (calls st) (step_id s) r"
    using ti unfolding trace_inv_def by blast
  then obtain c where c: "c \<in> set (calls st)" "step_id (call_step c) = step_id s"
    unfolding recorded_def by blast
  then have "call_step c \<in> set steps"
    using ti unfolding trace_inv_def sound_call_def by blast
  then have "call_step c = s"
    using c(2) s(1) d by (meson distinct_map inj_onD)
  then show False using c(1) s(2) by blast
qed

lemma sound_call_registered:
  "sound_call reg steps c \<Longrightarrow> get_agent reg (agent_name (call_step c)) \<noteq> None"
  by (simp add: sound_call_def)


lemma trace_inv_unregistered:
  assumes "trace_inv reg steps st" "get_agent reg (agent_name s) = None"
  shows "s \<notin> call_step ` set (calls st)"
  using assms sound_call_registered unfolding trace_inv_def by blast


subsection \<open>A step that blocks the loop\<close>

lemma stuck_state:
  assumes ti: "trace_inv reg steps st"
    and d: "distinct (map step_id steps)"
    and s: "s \<in> set steps" "dependencies s = []" "get_agent reg (agent_name s) = None"
  shows "length (completed_steps st) < length steps"
    and "ready_steps steps (completed_steps st) \<noteq> []"
proof -
  have nc: "step_id s \<notin> set (completed_steps st)"
    using trace_inv_uncalled [OF ti d s(1) trace_inv_unregistered [OF ti s(3)]] ti
    by (simp add: trace_inv_def)
  have sub: "set (completed_steps st) \<subseteq> set (map step_id steps)"
    using trace_inv_keys_steps [OF ti] ti by (simp add: trace_inv_def)
  have "step_id s \<in> set (map step_id steps)" using s(1) by simp
  then have "set (completed_steps st) \<subset> set (map step_id steps)"
    using nc sub by blast
  then have "card (set (completed_steps st)) < card (set (map step_id steps))"
    by (intro psubset_card_mono) simp_all
  moreover have "card (set (completed_steps st)) = length (completed_steps st)"
    using ti by (intro distinct_card) (simp add: trace_inv_def)
  moreover have "card (set (map step_id steps)) = length (map step_id steps)"
    using d by (rule distinct_card)
  ultimately show "length (completed_steps st) < length steps"
    by (simp del: set_map)
  have "s \<in> set (ready_steps steps (completed_steps st))"
    using s(1,2) nc by (simp add: ready_steps_def)
  then show "ready_steps steps (completed_steps st) \<noteq> []" by auto
qed

lemma stuck_never_returns:
  assumes d: "distinct (map step_id steps)"
    and s: "s \<in> set steps" "dependencies s = []" "get_agent reg (agent_name s) = None"
  shows "trace_inv reg steps st \<Longrightarrow> fst (execute_waves n reg steps ctx st) \<noteq> Returned"
proof (induction n arbitrary: st)
  case 0
  from stuck_state [OF 0 d s] obtain r rs
    where "length (completed_steps st) < length steps"
      and "ready_steps steps (completed_steps st) = r # rs"
    by (cases "ready_steps steps (completed_steps st)") auto
  then show ?case by (subst execute_waves.simps) simp
next
  case (Suc n)
  from stuck_state [OF Suc.prems d s] obtain r rs
    where l: "length (completed_steps st) < length steps"
      and rd: "ready_steps steps (completed_steps st) = r # rs"
    by (cases "ready_steps steps (completed_steps st)") auto
  let ?c = "create_tasks reg ctx (step_results st) (r # rs) (heap st)"
  obtain tasks h where c: "?c = (tasks, h)" by (cases ?c)
  obtain x st' where a: "await_tasks tasks (st\<lparr>heap := h\<rparr>) = (x, st')"
    by (cases "await_tasks tasks (st\<lparr>heap := h\<rparr>)")
  have "trace_inv reg steps (snd (await_tasks (fst ?c) (st\<lparr>heap := snd ?c\<rparr>)))"
    using await_tasks_trace [OF create_tasks_wave [OF Suc.prems, of ctx]] rd
    by (simp del: create_tasks.simps)
  then have ti': "trace_inv reg steps st'" using c a by simp
  show ?case
  proof (cases x)
    case None
    then show ?thesis
      using l rd c a Suc.IH [OF ti'] by (subst execute_waves.simps) (simp del: create_tasks.simps)
  next
    case (Some e)
    then show ?thesis
      using l rd c a by (subst execute_waves.simps) (simp del: create_tasks.simps)
  qed
qed

lemma await_tasks_no_raise:
  assumes nr: "\<And>name ag task a hp. reg name = Some ag \<Longrightarrow> \<exists>r. fst (ag task a hp) = Inr r"
  shows "(\<And>t. t \<in> set ts \<Longrightarrow> get_agent reg (agent_name (co_step t)) = Some (co_agent t)) \<Longrightarrow>
           fst (await_tasks ts st) = None"
proof (induction ts arbitrary: st)
  case Nil
  show ?case by simp
next
  case (Cons t ts)
  have "reg (agent_name (co_step t)) = Some (co_agent t)"
    using Cons.prems [of t] by (simp add: get_agent_def)
  from nr [OF this]
  obtain r where r: "fst (co_agent t (task_description (co_step t)) (co_addr t) (heap st)) = Inr r"
    by blast
  show ?case
    using r Cons.IH [of "finished t r (started t st)"] Cons.prems
    by (simp add: await_tasks_Cons)
qed

lemma execute_waves_no_raise:
  assumes nr: "\<And>name ag task a hp. reg name = Some ag \<Longrightarrow> \<exists>r. fst (ag task a hp) = Inr r"
  shows "fst (execute_waves n reg steps ctx st) = Returned
       \<or> fst (execute_waves n reg steps ctx st) = Unfinished"
proof (induction n arbitrary: st)
  case 0
  show ?case by (subst (1 2) execute_waves.simps) (simp split: list.splits)
next
  case (Suc n)
  show ?case
  proof (cases "length (completed_steps st) < length steps")
    case False
    then show ?thesis by (subst (1 2) execute_waves.simps) simp
  next
    case True
    show ?thesis
    proof (cases "ready_steps steps (completed_steps st)")
      case Nil
      then show ?thesis using True by (subst (1 2) execute_waves.simps) simp
    next
      case (Cons r rs)
      let ?c = "create_tasks reg ctx (step_results st) (r # rs) (heap st)"
      obtain tasks h where c: "?c = (tasks, h)" by (cases ?c)
      obtain x st' where a: "await_tasks tasks (st\<lparr>heap := h\<rparr>) = (x, st')"
        by (cases "await_tasks tasks (st\<lparr>heap := h\<rparr>)")
      have ag: "\<And>t. t \<in> set tasks \<Longrightarrow>
                  get_agent reg (agent_name (co_step t)) = Some (co_agent t)"
        using create_tasks_agent [of _ reg ctx "step_results st" "r # rs" "heap st"] c
        by (simp del: create_tasks.simps)
      have "fst (await_tasks tasks (st\<lparr>heap := h\<rparr>)) = None"
        by (rule await_tasks_no_raise [of reg tasks]) (fact nr, fact ag)
      then have "x = None" using a by simp
      then show ?thesis
        using True Cons c a Suc.IH [of st']
        by (subst (1 2) execute_waves.simps) (simp del: create_tasks.simps)
    qed
  qed
qed

subsection \<open>The outcome\<close>

lemma execute_definition_cases:
  assumes "fst (execute_definition n reg wt steps ctx h) = Some res"
  shows "(failed_outright res \<and> \<not> wr_success res \<and> wr_step_results res = [])
       \<or> (\<not> failed_outright res
          \<and> fst (execute_workflow_steps n reg steps ctx h) = Returned
          \<and> wr_step_results res = step_results (snd (execute_workflow_steps n reg steps ctx h))
          \<and> wr_success res = list_all success (map snd (wr_step_results res)))"
proof (cases "execute_workflow_steps n reg steps ctx h")
  case (Pair x st)
  then show ?thesis
    using assms
    by (auto simp: execute_definition_def error_result_def failed_outright_def
                   generate_workflow_summary_def Let_def
             split: exit.splits sum.splits)
qed

lemma execute_definition_None:
  "fst (execute_workflow_steps n reg steps ctx h) = Unfinished \<Longrightarrow>
     fst (execute_definition n reg wt steps ctx h) = None"
  by (cases "execute_workflow_steps n reg steps ctx h") (simp add: execute_definition_def)

lemma empty_workflow_run:
  "execute_workflow_steps n reg [] ctx h
     = (Returned, \<lparr>step_results = [], completed_steps = [], heap = h, calls = []\<rparr>)"
  unfolding execute_workflow_steps_def by (subst execute_waves.simps) simp

lemma empty_workflow_outcome:
  "snd (execute_definition n reg wt [] ctx h) = (h, [])"
  "map_option wr_success (fst (execute_definition n reg wt [] ctx h)) = Some True"
  "map_option wr_step_results (fst (execute_definition n reg wt [] ctx h)) = Some []"
  "map_option wr_recommendations (fst (execute_definition n reg wt [] ctx h))
     = Some generic_recommendations"
  "map_option failed_outright (fst (execute_definition n reg wt [] ctx h)) = Some False"
  by (simp_all add: execute_definition_def empty_workflow_run read_results_def
        generate_workflow_summary_def extract_key_insights_def identify_risks_def
        generate_recommendations_def generic_recommendations_def failed_outright_def Let_def)

subsection \<open>More facts about the scenarios\<close>



lemma faulty_run_facts:
  "map_option wr_success
     (fst (execute_definition 2 faulty_registry REAL_ESTATE_DEVELOPMENT abc 0 site_store))
    = Some False"
  "map_option (\<lambda>r. list_all success (map snd (wr_step_results r)))
     (fst (execute_definition 2 faulty_registry REAL_ESTATE_DEVELOPMENT abc 0 site_store))
    = Some True"
  "map_option wr_step_results
     (fst (execute_definition 2 faulty_registry REAL_ESTATE_DEVELOPMENT abc 0 site_store))
    = Some []"
  "map (\<lambda>c. step_id (call_step c))
     (snd (snd (execute_definition 2 faulty_registry REAL_ESTATE_DEVELOPMENT abc 0 site_store)))
    = [''A'']"
  by code_simp+

lemma stub_run_facts:
  "fst (execute_definition 2 stub_registry REAL_ESTATE_DEVELOPMENT abc 0 site_store)
    = Some (the (fst (execute_definition 2 stub_registry REAL_ESTATE_DEVELOPMENT abc 0
                        site_store)))"
  "map fst (wr_step_results
     (the (fst (execute_definition 2 stub_registry REAL_ESTATE_DEVELOPMENT abc 0 site_store))))
    = [''A'', ''B'', ''C'']"
  by code_simp+

lemma undefined_kinds:
  "map_of workflows MARKETING_CAMPAIGN = None"
  "map_of workflows CONSTRUCTION_PROJECT = None"
  by (simp_all add: workflows_def)

lemma marketing_run_facts:
  "map_option wr_success (fst (execute_workflow 0 stub_registry MARKETING_CAMPAIGN 0 site_store))
    = Some True"
  "snd (snd (execute_workflow 0 stub_registry MARKETING_CAMPAIGN 0 site_store)) = []"
  by code_simp+

lemma stub_never_raises:
  "\<forall>name ag task a hp. stub_registry name = Some ag \<longrightarrow> (\<exists>r. fst (ag task a hp) = Inr r)"
  by (simp add: stub_registry_def stub_agent_def)

lemma scenario_steps:
  "mk_step ''B'' ''stub'' ''plan'' [''X''] 10 \<in> set dangling"
  "''X'' \<in> set (dependencies (mk_step ''B'' ''stub'' ''plan'' [''X''] 10))"
  "''X'' \<notin> step_id ` set dangling"
  "distinct (map step_id dangling)"
  "mk_step ''A'' ''ghost'' ''survey'' [] 10 \<in> set ghost_pair"
  "get_agent stub_registry (agent_name (mk_step ''A'' ''ghost'' ''survey'' [] 10)) = None"
  "dependencies (mk_step ''A'' ''ghost'' ''survey'' [] 10) = []"
  "distinct (map step_id ghost_pair)"
  "step_id (mk_step ''A'' ''ghost'' ''survey'' [] 10) = ''A''"
  "step_id (mk_step ''B'' ''stub'' ''plan'' [''X''] 10) = ''B''"
  by (simp_all add: dangling_def ghost_pair_def mk_step_def get_agent_def stub_registry_def)

subsection \<open>Serial execution\<close>










section \<open>Claims\<close>




text \<open>
  Claim C2, as the code has it. \<^verbatim>\<open>_get_workflow_definition\<close> ends in
  \<^verbatim>\<open>workflows.get(workflow_type, [])\<close>: a kind without a definition gets the empty step
  list, and the empty workflow succeeds. \<^verbatim>\<open>MARKETING_CAMPAIGN\<close> is such a kind.
\<close>

theorem undefined_kind_succeeds:
  "map_of workflows MARKETING_CAMPAIGN = None
   \<and> map_option wr_success
        (fst (execute_workflow 0 stub_registry MARKETING_CAMPAIGN 0 site_store))
       = Some True
   \<and> snd (snd (execute_workflow 0 stub_registry MARKETING_CAMPAIGN 0 site_store)) = []"
  using undefined_kinds(1) marketing_run_facts by (intro conjI)

text \<open>
  Claim C2, amended. For a kind without a definition, \<^verbatim>\<open>execute_workflow\<close> runs the empty
  workflow: no executor is invoked, the store is unchanged, and the outcome, reached
  without any wave, is a result with \<^verbatim>\<open>success=True\<close>, no step results, the five generic
  recommendations and an ordinary summary. No exception is raised.
\<close>

theorem undefined_kind_runs_the_empty_workflow:
  assumes "map_of workflows wt = None"
  shows "get_workflow_definition wt = []
       \<and> snd (execute_workflow n reg wt ctx h) = (h, [])
       \<and> map_option wr_success (fst (execute_workflow n reg wt ctx h)) = Some True
       \<and> map_option wr_step_results (fst (execute_workflow n reg wt ctx h)) = Some []
       \<and> map_option wr_recommendations (fst (execute_workflow n reg wt ctx h))
           = Some generic_recommendations
       \<and> map_option failed_outright (fst (execute_workflow n reg wt ctx h)) = Some False"
proof -
  have "get_workflow_definition wt = []"
    using assms by (simp add: get_workflow_definition_def)
  then show ?thesis
    using empty_workflow_outcome [of n reg wt ctx h] by (simp add: execute_workflow_def)
qed

text \<open>\<^verbatim>\<open>CONSTRUCTION_PROJECT\<close> is the other kind without a definition.\<close>

theorem undefined_kind_runs_the_empty_workflow_witness:
  "map_of workflows CONSTRUCTION_PROJECT = None
   \<and> get_workflow_definition CONSTRUCTION_PROJECT = []
   \<and> map_option wr_success
        (fst (execute_workflow 0 faulty_registry CONSTRUCTION_PROJECT 0 site_store))
       = Some True
   \<and> map_option wr_step_results
        (fst (execute_workflow 0 faulty_registry CONSTRUCTION_PROJECT 0 site_store))
       = Some []"
  using undefined_kind_runs_the_empty_workflow
          [OF undefined_kinds(2), of 0 faulty_registry 0 site_store]
    undefined_kinds(2)
  by blast




text \<open>
  Claim C4 fails in the code. When a step without dependencies names an executor that is
  not registered and the step ids are distinct, the \<^verbatim>\<open>while\<close> loop never ends normally:
  the step is ready in every wave and is skipped in every wave, so the \<^verbatim>\<open>break\<close> for
  "no more steps can be executed" is never reached and the completed set never fills.
  If moreover no executor raises, the run has not ended after any number of waves.
\<close>

theorem missing_executor_loops_forever:
  assumes "s \<in> set steps"
    and "dependencies s = []"
    and "get_agent reg (agent_name s) = None"
    and "distinct (map step_id steps)"
  shows "fst (execute_workflow_steps n reg steps ctx h) \<noteq> Returned
       \<and> ((\<forall>name ag task a hp. reg name = Some ag \<longrightarrow> (\<exists>r. fst (ag task a hp) = Inr r))
            \<longrightarrow> fst (execute_definition n reg wt steps ctx h) = None)"
proof (intro conjI impI)
  show nr: "fst (execute_workflow_steps n reg steps ctx h) \<noteq> Returned"
    unfolding execute_workflow_steps_def
    by (rule stuck_never_returns [OF assms(4,1,2,3)]) (simp add: trace_inv_def)
  assume "\<forall>name ag task a hp. reg name = Some ag \<longrightarrow> (\<exists>r. fst (ag task a hp) = Inr r)"
  then have "\<And>name ag task a hp. reg name = Some ag \<Longrightarrow> \<exists>r. fst (ag task a hp) = Inr r"
    by blast
  then have "fst (execute_workflow_steps n reg steps ctx h) = Returned
           \<or> fst (execute_workflow_steps n reg steps ctx h) = Unfinished"
    unfolding execute_workflow_steps_def by (rule execute_waves_no_raise)
  then have "fst (execute_workflow_steps n reg steps ctx h) = Unfinished"
    using nr by blast
  then show "fst (execute_definition n reg wt steps ctx h) = None"
    by (rule execute_definition_None)
qed

text \<open>
  Steps A (executor absent) and B (executor present): the run has not ended after a
  hundred waves.
\<close>

theorem missing_executor_loops_forever_witness:
  "mk_step ''A'' ''ghost'' ''survey'' [] 10 \<in> set ghost_pair
   \<and> dependencies (mk_step ''A'' ''ghost'' ''survey'' [] 10) = []
   \<and> get_agent stub_registry (agent_name (mk_step ''A'' ''ghost'' ''survey'' [] 10)) = None
   \<and> distinct (map step_id ghost_pair)
   \<and> fst (execute_workflow_steps 100 stub_registry ghost_pair 0 site_store) \<noteq> Returned
   \<and> fst (execute_definition 100 stub_registry REAL_ESTATE_DEVELOPMENT ghost_pair 0 site_store)
       = None"
  using missing_executor_loops_forever
          [OF scenario_steps(5,7,6,8), of 100 0 site_store REAL_ESTATE_DEVELOPMENT]
    scenario_steps(5,7,6,8) stub_never_raises
  by blast

text \<open>
  Claim C5, as the code has it. When an executor raises, the \<^verbatim>\<open>except Exception\<close> branch
  returns a result with \<^verbatim>\<open>success=False\<close> and \<^verbatim>\<open>step_results={}\<close>: every step result it
  holds is successful, there being none, and yet \<^verbatim>\<open>success\<close> is false.
\<close>

theorem failure_without_failed_step:
  "map_option wr_success
     (fst (execute_definition 2 faulty_registry REAL_ESTATE_DEVELOPMENT abc 0 site_store))
    = Some False
   \<and> map_option (\<lambda>r. list_all success (map snd (wr_step_results r)))
        (fst (execute_definition 2 faulty_registry REAL_ESTATE_DEVELOPMENT abc 0 site_store))
       = Some True
   \<and> map_option wr_step_results
        (fst (execute_definition 2 faulty_registry REAL_ESTATE_DEVELOPMENT abc 0 site_store))
       = Some []"
  using faulty_run_facts(1,2,3) by (intro conjI)

text \<open>
  Claim C5, amended. In every result that \<^verbatim>\<open>execute_workflow\<close> returns, \<^verbatim>\<open>success\<close> true
  implies that every step result it holds is successful. A result built by the
  \<^verbatim>\<open>except\<close> branch has \<^verbatim>\<open>success=False\<close> and no step results; in any other result the
  step results are those of the loop and \<^verbatim>\<open>success\<close> is their conjunction.
\<close>

theorem success_is_the_conjunction_unless_raised:
  assumes "fst (execute_definition n reg wt steps ctx h) = Some res"
  shows "(wr_success res \<longrightarrow> list_all success (map snd (wr_step_results res)))
       \<and> (failed_outright res \<longrightarrow> \<not> wr_success res \<and> wr_step_results res = [])
       \<and> (\<not> failed_outright res \<longrightarrow>
            wr_success res = list_all success (map snd (wr_step_results res))
          \<and> wr_step_results res
              = step_results (snd (execute_workflow_steps n reg steps ctx h)))"
  using execute_definition_cases [OF assms] by auto

text \<open>The scenario \<open>abc\<close> with the stub executors: three successes, and \<^verbatim>\<open>success=True\<close>.\<close>

theorem success_is_the_conjunction_unless_raised_witness:
  "fst (execute_definition 2 stub_registry REAL_ESTATE_DEVELOPMENT abc 0 site_store)
     = Some (the (fst (execute_definition 2 stub_registry REAL_ESTATE_DEVELOPMENT abc 0
                         site_store)))
   \<and> map fst (wr_step_results
        (the (fst (execute_definition 2 stub_registry REAL_ESTATE_DEVELOPMENT abc 0
                     site_store))))
       = [''A'', ''B'', ''C'']
   \<and> wr_success
        (the (fst (execute_definition 2 stub_registry REAL_ESTATE_DEVELOPMENT abc 0 site_store)))
       = list_all success (map snd (wr_step_results
           (the (fst (execute_definition 2 stub_registry REAL_ESTATE_DEVELOPMENT abc 0
                        site_store)))))
   \<and> wr_success
        (the (fst (execute_definition 2 stub_registry REAL_ESTATE_DEVELOPMENT abc 0
                     site_store)))"
proof -
  let ?r = "the (fst (execute_definition 2 stub_registry REAL_ESTATE_DEVELOPMENT abc 0
                         site_store))"
  have s: "wr_success ?r" "\<not> failed_outright ?r" by code_simp+
  show ?thesis
    using success_is_the_conjunction_unless_raised [OF stub_run_facts(1)] stub_run_facts s
    by blast
qed




text \<open>
  Claim C7. In every run, whatever the wave bound, the registry and the agents, each
  executor invocation happens at a moment when every dependency of its step has a result in
  the results dictionary; and a step is ready only if all its dependency ids are in the
  completed list (and its own id is not).
\<close>

theorem dependencies_recorded_before_invocation:
  assumes "ctx < length h"
    and "c \<in> set (snd (snd (execute_definition n reg wt steps ctx h)))"
  shows "set (dependencies (call_step c)) \<subseteq> fst ` set (call_results c)
       \<and> (\<forall>s \<in> set (ready_steps steps completed).
             set (dependencies s) \<subseteq> set completed \<and> step_id s \<notin> set completed)"
proof
  show "set (dependencies (call_step c)) \<subseteq> fst ` set (call_results c)"
    using execute_definition_sound [OF assms(2)] by (simp add: sound_call_def)
  show "\<forall>s \<in> set (ready_steps steps completed).
          set (dependencies s) \<subseteq> set completed \<and> step_id s \<notin> set completed"
    using ready_steps_member by blast
qed

text \<open>
  The invocation of step C in the scenario \<open>abc\<close>: both its dependencies have results.
\<close>

theorem dependencies_recorded_before_invocation_witness:
  "0 < length site_store
   \<and> call_C \<in> set (snd (snd (execute_definition 2 stub_registry REAL_ESTATE_DEVELOPMENT abc 0
                                  site_store)))
   \<and> set (dependencies (call_step call_C)) \<subseteq> fst ` set (call_results call_C)
   \<and> dependencies (call_step call_C) = [''A'', ''B'']
   \<and> map fst (call_results call_C) = [''A'', ''B'']"
proof -
  have d: "dependencies (call_step call_C) = [''A'', ''B'']"
    and r: "map fst (call_results call_C) = [''A'', ''B'']"
    by (simp_all add: call_C_def mk_step_def ok_result_def)
  show ?thesis
    using dependencies_recorded_before_invocation [OF site_store_length abc_call_C]
      site_store_length abc_call_C d r
    by blast
qed




text \<open>
  Claim C9, as the code has it. For step results with regular payloads,
  \<^verbatim>\<open>_generate_recommendations\<close> returns the five generic items followed by the first two
  recommendations of each successful step, in the order of the result dictionary, cut at
  eight entries. Nothing is deduplicated.
\<close>

theorem recommendations_merged_and_capped:
  assumes "list_all (\<lambda>kv. list_payload (snd kv)) results"
  shows "generate_recommendations workflow_type results = Inr (merged_recommendations results)
         \<and> length (merged_recommendations results) \<le> 8
         \<and> take 5 (merged_recommendations results) = generic_recommendations"
proof -
  have "list_all list_payload (map snd results)"
    using assms by (simp add: list_all_iff)
  then have "extend_recommendations (map snd results) generic_recommendations =
      Inr (generic_recommendations
             @ concat (map (\<lambda>r. take 2 (recommended r)) (map snd results)))"
    by (rule extend_recommendations_list)
  then have "generate_recommendations workflow_type results
               = Inr (merged_recommendations results)"
    by (simp add: generate_recommendations_def merged_recommendations_def comp_def)
  moreover have "length (merged_recommendations results) \<le> 8"
    by (simp add: merged_recommendations_def)
  moreover have "take 5 (merged_recommendations results) = generic_recommendations"
    by (simp add: merged_recommendations_def generic_recommendations_def)
  ultimately show ?thesis by simp
qed

theorem recommendations_merged_and_capped_witness:
  "list_all (\<lambda>kv. list_payload (snd kv)) much_advice
   \<and> generate_recommendations REAL_ESTATE_DEVELOPMENT much_advice =
       Inr (generic_recommendations @ [PStr ''a1'', PStr ''a2'', PStr ''b1''])"
proof -
  have h: "list_all (\<lambda>kv. list_payload (snd kv)) much_advice"
    by (simp add: much_advice_def advice_def list_payload_def stub_result_def)
  have "merged_recommendations much_advice =
          generic_recommendations @ [PStr ''a1'', PStr ''a2'', PStr ''b1'']"
    by (simp add: merged_recommendations_def much_advice_def advice_def recommended_def
          stub_result_def generic_recommendations_def)
  with recommendations_merged_and_capped [OF h, of REAL_ESTATE_DEVELOPMENT] h
  show ?thesis by simp
qed

text \<open>
  Claim C9 as stated fails: one step recommending the same item twice yields a list in
  which that item occurs twice.
\<close>

theorem recommendations_not_deduplicated:
  "generate_recommendations REAL_ESTATE_DEVELOPMENT repeated_advice =
     Inr (generic_recommendations @ [PStr ''Hire locally'', PStr ''Hire locally''])
   \<and> \<not> distinct (generic_recommendations @ [PStr ''Hire locally'', PStr ''Hire locally''])"
  by (simp add: generate_recommendations_def repeated_advice_def advice_def stub_result_def
        domain_recommendations_def first_two_def py_slice_to_def py_iter_def
        generic_recommendations_def)




end
